theory Spec2Isabelle
  imports Main "HOL-Library.Word" "HOL-Library.Sublist"
begin

section \<open>The JDBC connector: query text and scan lifecycle\<close>

text \<open>
  A shallow embedding of \<^verbatim>\<open>be/src/connector/jdbc_connector.cpp\<close>: the function
  \<^verbatim>\<open>get_jdbc_sql\<close> that writes the remote query, and the methods \<^verbatim>\<open>open\<close>,
  \<^verbatim>\<open>get_next\<close>, \<^verbatim>\<open>close\<close> and \<^verbatim>\<open>raw_rows_read\<close> of \<^verbatim>\<open>JDBCDataSource\<close>.
  A \<^verbatim>\<open>std::string\<close> is a \<^typ>\<open>string\<close>, an \<^verbatim>\<open>int64_t\<close> is a \<^typ>\<open>64 word\<close> read through
  \<^const>\<open>sint\<close>, a \<^verbatim>\<open>size_t\<close> count is a \<^typ>\<open>nat\<close>.
\<close>

subsection \<open>Writing an \<^verbatim>\<open>int64_t\<close> to a stream\<close>

text \<open>
  \<^verbatim>\<open>oss << limit\<close> writes the decimal digits of the signed value, with a leading minus
  sign when it is negative (the stream has its default flags).
\<close>

definition digit_char :: "nat \<Rightarrow> char" where
  "digit_char d = char_of (48 + d)"

fun dec_nat :: "nat \<Rightarrow> string" where
  "dec_nat n = (if n < 10 then [digit_char n] else dec_nat (n div 10) @ [digit_char (n mod 10)])"

declare dec_nat.simps [simp del]

definition dec_int :: "int \<Rightarrow> string" where
  "dec_int i = (if i < 0 then CHR ''-'' # dec_nat (nat (- i)) else dec_nat (nat i))"

definition put_int64 :: "64 word \<Rightarrow> string" where
  "put_int64 w = dec_int (sint w)"

subsection \<open>\<^verbatim>\<open>get_jdbc_sql\<close>\<close>

text \<open>
  The two \<^verbatim>\<open>for\<close> loops of the source, each with its index and the text written so far.
  The index stays below the size of the vector it reads.
\<close>

function columns_loop :: "string list \<Rightarrow> nat \<Rightarrow> string \<Rightarrow> string" where
  "columns_loop columns i oss =
     (if i < length columns
      then columns_loop columns (Suc i)
             (oss @ (if i = 0 then '''' else '','') @ '' '' @ columns ! i)
      else oss)"
  by pat_completeness auto
termination
  by (relation "measure (\<lambda>(columns, i, oss). length columns - i)") auto

declare columns_loop.simps [simp del]

function filters_loop :: "string list \<Rightarrow> nat \<Rightarrow> string \<Rightarrow> string" where
  "filters_loop filters i oss =
     (if i < length filters
      then filters_loop filters (Suc i)
             (oss @ (if i = 0 then '''' else '' AND'') @ ''('' @ filters ! i @ '')'')
      else oss)"
  by pat_completeness auto
termination
  by (relation "measure (\<lambda>(filters, i, oss). length filters - i)") auto

declare filters_loop.simps [simp del]

definition get_jdbc_sql :: "string \<Rightarrow> string list \<Rightarrow> string list \<Rightarrow> 64 word \<Rightarrow> string" where
  "get_jdbc_sql table columns filters limit =
     (let oss = ''SELECT'';
          oss = columns_loop columns 0 oss;
          oss = oss @ '' FROM '' @ table;
          oss = (if filters \<noteq> [] then filters_loop filters 0 (oss @ '' WHERE '') else oss);
          oss = (if limit \<noteq> - 1 then oss @ '' LIMIT '' @ put_int64 limit else oss)
      in oss)"

subsection \<open>Statuses, chunks and the scanner\<close>

text \<open>
  A \<^verbatim>\<open>Status\<close> is \<^verbatim>\<open>OK\<close>, \<^verbatim>\<open>EndOfFile\<close> with its message, or any other error.
  \<^verbatim>\<open>RETURN_IF_ERROR\<close> returns every status that is not \<^verbatim>\<open>OK\<close>.
\<close>

datatype status = OK | EndOfFile string | Error string

text \<open>A chunk is the list of its rows; \<^verbatim>\<open>num_rows\<close> counts them.\<close>

type_synonym 'r chunk = "'r list"

definition num_rows :: "'r chunk \<Rightarrow> nat" where
  "num_rows chunk = length chunk"

text \<open>
  Modelled from the spec: \<^verbatim>\<open>_init_chunk\<close> is declared in \<^verbatim>\<open>connector/connector.h\<close>,
  which is missing. Each call starts with a fresh batch that has no rows, with room
  reserved for the given number.
\<close>

definition init_chunk :: "nat \<Rightarrow> 'r chunk" where
  "init_chunk n = []"

record jdbc_scan_context =
  driver_path :: string
  driver_class_name :: string
  ctx_jdbc_url :: string
  user :: string
  passwd :: string
  sql :: string

text \<open>
  \<^verbatim>\<open>JDBCScanner\<close> is declared in \<^verbatim>\<open>exec/vectorized/jdbc_scanner.h\<close>, outside this file, so
  the scanner is a parameter: a state of any type \<open>'sc\<close> and the five operations the
  connector calls on it. Each operation returns its \<^verbatim>\<open>Status\<close> and the scanner's next
  state; \<^verbatim>\<open>get_next\<close> also receives the chunk and the flag behind the two pointers and
  returns what they hold afterwards.
\<close>

record ('sc, 'r) jdbc_scanner =
  scanner_new :: "jdbc_scan_context \<Rightarrow> 'sc"
  scanner_open :: "'sc \<Rightarrow> status \<times> 'sc"
  scanner_reset_jni_env :: "'sc \<Rightarrow> status \<times> 'sc"
  scanner_get_next :: "'sc \<Rightarrow> 'r chunk \<Rightarrow> bool \<Rightarrow> status \<times> 'r chunk \<times> bool \<times> 'sc"
  scanner_close :: "'sc \<Rightarrow> status \<times> 'sc"

subsection \<open>Descriptors and the data source\<close>

record jdbc_table_descriptor =
  jdbc_driver_name :: string
  jdbc_driver_url :: string
  jdbc_driver_checksum :: string
  jdbc_driver_class :: string
  jdbc_url :: string
  jdbc_table :: string
  jdbc_user :: string
  jdbc_passwd :: string

record tuple_descriptor =
  table_desc :: "jdbc_table_descriptor option"

record runtime_state =
  desc_tbl :: "32 word \<Rightarrow> tuple_descriptor option"

record jdbc_scan_node =
  tuple_id :: "32 word"
  columns :: "string list"
  filters :: "string list"

text \<open>
  \<^verbatim>\<open>JDBCDriverManager::get_driver_location\<close>, outside this file: from the driver's name,
  URL and checksum, a status and, when it is \<^verbatim>\<open>OK\<close>, the local path of the driver.
\<close>

type_synonym jdbc_driver_manager = "string \<Rightarrow> string \<Rightarrow> string \<Rightarrow> status \<times> string"

text \<open>
  The members of \<^verbatim>\<open>JDBCDataSource\<close> that the methods read or write. A pointer is an
  \<^typ>\<open>'a option\<close>, \<^const>\<open>None\<close> for \<^verbatim>\<open>nullptr\<close>; the scanner is owned by this object
  alone, so the field holds the scanner's state.
\<close>

record 'sc jdbc_data_source =
  provider :: jdbc_scan_node
  runtime_state :: "runtime_state option"
  tuple_desc :: "tuple_descriptor option"
  scanner :: "'sc option"
  rows_read :: "64 word"
  read_limit :: "64 word"

text \<open>
  Modelled from the spec: the member initialisers are in \<^verbatim>\<open>connector/jdbc_connector.h\<close>
  and \<^verbatim>\<open>connector/connector.h\<close>, which are missing. The constructor in the source sets the
  provider only; a new session has no scanner, has read no rows and has no limit.
\<close>

definition new_data_source :: "jdbc_scan_node \<Rightarrow> 'sc jdbc_data_source" where
  "new_data_source node =
     \<lparr>provider = node, runtime_state = None, tuple_desc = None, scanner = None,
      rows_read = 0, read_limit = - 1\<rparr>"

text \<open>Calling a method through a null pointer ends the process.\<close>

datatype fault = NullPointer

definition create_scanner ::
  "jdbc_driver_manager \<Rightarrow> ('sc, 'r) jdbc_scanner \<Rightarrow> 'sc jdbc_data_source
     \<Rightarrow> fault + status \<times> 'sc jdbc_data_source" where
  "create_scanner mgr scn s =
     (case tuple_desc s of
        None \<Rightarrow> Inl NullPointer
      | Some td \<Rightarrow>
         (case table_desc td of
            None \<Rightarrow> Inl NullPointer
          | Some tbl \<Rightarrow>
             (let node = provider s;
                  driver_name = jdbc_driver_name tbl;
                  driver_url = jdbc_driver_url tbl;
                  driver_checksum = jdbc_driver_checksum tbl;
                  driver_class = jdbc_driver_class tbl;
                  (status, driver_location) = mgr driver_name driver_url driver_checksum
              in if status \<noteq> OK then Inr (status, s)
                 else
                   (let scan_ctx =
                          \<lparr>driver_path = driver_location,
                           driver_class_name = driver_class,
                           ctx_jdbc_url = jdbc_url tbl,
                           user = jdbc_user tbl,
                           passwd = jdbc_passwd tbl,
                           sql = get_jdbc_sql (jdbc_table tbl) (columns node)
                                   (filters node) (read_limit s)\<rparr>;
                        (st, sc) = scanner_open scn (scanner_new scn scan_ctx);
                        s = s\<lparr>scanner := Some sc\<rparr>
                    in if st \<noteq> OK then Inr (st, s) else Inr (OK, s)))))"

definition "open" ::
  "jdbc_driver_manager \<Rightarrow> ('sc, 'r) jdbc_scanner \<Rightarrow> runtime_state \<Rightarrow> 'sc jdbc_data_source
     \<Rightarrow> fault + status \<times> 'sc jdbc_data_source" where
  "open mgr scn state s =
     (let s = s\<lparr>runtime_state := Some state,
                tuple_desc := desc_tbl state (tuple_id (provider s))\<rparr>
      in case create_scanner mgr scn s of
           Inl f \<Rightarrow> Inl f
         | Inr (st, s) \<Rightarrow> if st \<noteq> OK then Inr (st, s) else Inr (OK, s))"

text \<open>\<^verbatim>\<open>close\<close> returns nothing; the statuses of the two calls are dropped.\<close>

definition close :: "('sc, 'r) jdbc_scanner \<Rightarrow> 'sc jdbc_data_source \<Rightarrow> 'sc jdbc_data_source" where
  "close scn s =
     (case scanner s of
        None \<Rightarrow> s
      | Some sc \<Rightarrow>
         (let (_, sc) = scanner_reset_jni_env scn sc;
              (_, sc) = scanner_close scn sc
          in s\<lparr>scanner := Some sc\<rparr>))"

text \<open>
  The \<^verbatim>\<open>do\<close> ... \<^verbatim>\<open>while\<close> loop of \<^verbatim>\<open>get_next\<close>. It ends with the first fetch that
  fails, signals the end or leaves rows in the chunk; a scanner that never does any of
  these keeps it running, which is the value \<^const>\<open>None\<close>.
\<close>

partial_function (option) fetch_loop ::
  "('sc, 'r) jdbc_scanner \<Rightarrow> 'sc \<Rightarrow> 'r chunk \<Rightarrow> bool \<Rightarrow> (status \<times> 'r chunk \<times> bool \<times> 'sc) option" where
  "fetch_loop scn sc chunk eos =
     (case scanner_get_next scn sc chunk eos of
        (st, chunk, eos, sc) \<Rightarrow>
          if st \<noteq> OK then Some (st, chunk, eos, sc)
          else if \<not> eos \<and> num_rows chunk = 0 then fetch_loop scn sc chunk eos
          else Some (OK, chunk, eos, sc))"

declare fetch_loop.simps [code]

text \<open>
  \<^verbatim>\<open>get_next\<close> receives the caller's chunk and returns the status, the chunk and the
  data source as the call leaves them.
\<close>

definition get_next ::
  "('sc, 'r) jdbc_scanner \<Rightarrow> 'sc jdbc_data_source \<Rightarrow> 'r chunk
     \<Rightarrow> (fault + status \<times> 'r chunk \<times> 'sc jdbc_data_source) option" where
  "get_next scn s chunk =
     (case scanner s of
        None \<Rightarrow> Some (Inl NullPointer)
      | Some sc \<Rightarrow>
         (let (st, sc) = scanner_reset_jni_env scn sc
          in if st \<noteq> OK then Some (Inr (st, chunk, s\<lparr>scanner := Some sc\<rparr>))
             else
               (case fetch_loop scn sc (init_chunk 0) False of
                  None \<Rightarrow> None
                | Some (st, chunk, eos, sc) \<Rightarrow>
                   (let s = s\<lparr>scanner := Some sc\<rparr>
                    in if st \<noteq> OK then Some (Inr (st, chunk, s))
                       else if eos then Some (Inr (EndOfFile '''', chunk, s))
                       else Some (Inr (OK, chunk,
                              s\<lparr>rows_read := rows_read s + word_of_nat (num_rows chunk)\<rparr>))))))"

definition raw_rows_read :: "'sc jdbc_data_source \<Rightarrow> 64 word" where
  "raw_rows_read s = rows_read s"

definition num_rows_read :: "'sc jdbc_data_source \<Rightarrow> 64 word" where
  "num_rows_read s = rows_read s"

subsection \<open>A caller of the data source\<close>

text \<open>
  The engine drives one data source through its four methods. A caller is a list of
  calls; it sees one reply for each. It hands \<^verbatim>\<open>get_next\<close> an empty chunk. A fault
  ends the run, and a \<^verbatim>\<open>get_next\<close> that does not return leaves no result.
\<close>

datatype call = Open | GetNext | Close | RawRowsRead

datatype 'r reply =
    OpenReply status
  | NextReply status "'r chunk"
  | CloseReply
  | RowsReadReply "64 word"

definition perform ::
  "jdbc_driver_manager \<Rightarrow> ('sc, 'r) jdbc_scanner \<Rightarrow> runtime_state \<Rightarrow> call
     \<Rightarrow> 'sc jdbc_data_source \<Rightarrow> (fault + 'r reply \<times> 'sc jdbc_data_source) option" where
  "perform mgr scn state c s =
     (case c of
        Open \<Rightarrow>
          (case open mgr scn state s of
             Inl f \<Rightarrow> Some (Inl f)
           | Inr (st, s') \<Rightarrow> Some (Inr (OpenReply st, s')))
      | GetNext \<Rightarrow>
          (case get_next scn s [] of
             None \<Rightarrow> None
           | Some (Inl f) \<Rightarrow> Some (Inl f)
           | Some (Inr (st, chunk, s')) \<Rightarrow> Some (Inr (NextReply st chunk, s')))
      | Close \<Rightarrow> Some (Inr (CloseReply, close scn s))
      | RawRowsRead \<Rightarrow> Some (Inr (RowsReadReply (raw_rows_read s), s)))"

fun session ::
  "jdbc_driver_manager \<Rightarrow> ('sc, 'r) jdbc_scanner \<Rightarrow> runtime_state \<Rightarrow> call list
     \<Rightarrow> 'sc jdbc_data_source \<Rightarrow> (fault + 'r reply list \<times> 'sc jdbc_data_source) option" where
  "session mgr scn state [] s = Some (Inr ([], s))"
| "session mgr scn state (c # cs) s =
     (case perform mgr scn state c s of
        None \<Rightarrow> None
      | Some (Inl f) \<Rightarrow> Some (Inl f)
      | Some (Inr (r, s')) \<Rightarrow>
          (case session mgr scn state cs s' of
             None \<Rightarrow> None
           | Some (Inl f) \<Rightarrow> Some (Inl f)
           | Some (Inr (rs, s'')) \<Rightarrow> Some (Inr (r # rs, s''))))"

text \<open>The batches handed to the caller: the chunks that came with the status \<^verbatim>\<open>OK\<close>.\<close>

fun delivered :: "'r reply list \<Rightarrow> 'r chunk list" where
  "delivered [] = []"
| "delivered (NextReply st chunk # rs) =
     (if st = OK then chunk # delivered rs else delivered rs)"
| "delivered (r # rs) = delivered rs"

definition rows_delivered :: "'r reply list \<Rightarrow> nat" where
  "rows_delivered rs = sum_list (map num_rows (delivered rs))"

text \<open>What a run shows the caller, and the data source it leaves.\<close>

definition transcript ::
  "(fault + 'r reply list \<times> 'sc jdbc_data_source) option \<Rightarrow> 'r reply list option" where
  "transcript res = (case res of Some (Inr (rs, s)) \<Rightarrow> Some rs | _ \<Rightarrow> None)"

definition final_state ::
  "(fault + 'r reply list \<times> 'sc jdbc_data_source) option \<Rightarrow> 'sc jdbc_data_source option" where
  "final_state res = (case res of Some (Inr (rs, s)) \<Rightarrow> Some s | _ \<Rightarrow> None)"

subsection \<open>The fetches of one call\<close>

text \<open>
  A fetch ends the loop unless it succeeds, leaves the end flag down and leaves the
  chunk without rows.
\<close>

definition stops :: "status \<times> 'r chunk \<times> bool \<times> 'sc \<Rightarrow> bool" where
  "stops r = (case r of (st, chunk, eos, sc) \<Rightarrow> \<not> (st = OK \<and> \<not> eos \<and> num_rows chunk = 0))"

text \<open>
  \<open>discards scn (sc, chunk) (sc', chunk')\<close>: from the scanner state \<open>sc\<close> and the chunk
  \<open>chunk\<close>, a run of fetches that each succeed without rows and without the end flag
  leads to \<open>sc'\<close> and \<open>chunk'\<close>. These are the fetches the loop throws away.
\<close>

inductive discards ::
  "('sc, 'r) jdbc_scanner \<Rightarrow> 'sc \<times> 'r chunk \<Rightarrow> 'sc \<times> 'r chunk \<Rightarrow> bool"
  for scn :: "('sc, 'r) jdbc_scanner" where
  discards_none: "discards scn (sc, chunk) (sc, chunk)"
| discards_more:
    "scanner_get_next scn sc chunk False = (OK, chunk1, False, sc1) \<Longrightarrow> num_rows chunk1 = 0
     \<Longrightarrow> discards scn (sc1, chunk1) (sc', chunk') \<Longrightarrow> discards scn (sc, chunk) (sc', chunk')"

subsection \<open>A scripted scanner\<close>

text \<open>
  Modelled from the spec: \<^verbatim>\<open>exec/vectorized/jdbc_scanner.cpp\<close> is missing. This is the
  remote scanner of the spec's scenarios, which yields a given sequence of batches
  followed by end-of-data. Each fetch answers with the next entry of the script: a
  status, the rows it puts in the chunk and the end flag. When the script is used up
  the fetch signals the end and leaves the chunk as it is. Opening and resetting
  succeed, and the scanner counts the calls of its \<^verbatim>\<open>close\<close>.
\<close>

record 'r scripted_scanner =
  script :: "(status \<times> 'r chunk \<times> bool) list"
  closes :: nat

definition scripted_get_next ::
  "'r scripted_scanner \<Rightarrow> 'r chunk \<Rightarrow> bool \<Rightarrow> status \<times> 'r chunk \<times> bool \<times> 'r scripted_scanner" where
  "scripted_get_next sc chunk eos =
     (case script sc of
        [] \<Rightarrow> (OK, chunk, True, sc)
      | (st, rows, e) # rest \<Rightarrow> (st, rows, e, sc\<lparr>script := rest\<rparr>))"

definition scripted :: "'r scripted_scanner \<Rightarrow> ('r scripted_scanner, 'r) jdbc_scanner" where
  "scripted init =
     \<lparr>scanner_new = (\<lambda>ctx. init),
      scanner_open = (\<lambda>sc. (OK, sc)),
      scanner_reset_jni_env = (\<lambda>sc. (OK, sc)),
      scanner_get_next = scripted_get_next,
      scanner_close = (\<lambda>sc. (OK, sc\<lparr>closes := Suc (closes sc)\<rparr>))\<rparr>"

definition batches :: "'r chunk list \<Rightarrow> (status \<times> 'r chunk \<times> bool) list" where
  "batches bs = map (\<lambda>b. (OK, b, False)) bs"

text \<open>How often the scripted scanner of a data source, or of the end of a run, was closed.\<close>

definition closes_seen :: "'r scripted_scanner jdbc_data_source \<Rightarrow> nat option" where
  "closes_seen s = (case scanner s of None \<Rightarrow> None | Some sc \<Rightarrow> Some (closes sc))"

definition closes_after ::
  "(fault + 'r reply list \<times> 'r scripted_scanner jdbc_data_source) option \<Rightarrow> nat option" where
  "closes_after res = (case final_state res of None \<Rightarrow> None | Some s \<Rightarrow> closes_seen s)"

text \<open>A table, a driver manager and a runtime state to run the scenarios with.\<close>

definition demo_table :: jdbc_table_descriptor where
  "demo_table =
     \<lparr>jdbc_driver_name = ''pg'', jdbc_driver_url = ''http://host/pg.jar'',
      jdbc_driver_checksum = ''c0ffee'', jdbc_driver_class = ''org.postgresql.Driver'',
      jdbc_url = ''jdbc:postgresql://host/db'', jdbc_table = ''t'',
      jdbc_user = ''u'', jdbc_passwd = ''p''\<rparr>"

definition demo_state :: runtime_state where
  "demo_state = \<lparr>desc_tbl = (\<lambda>i. if i = 0 then Some \<lparr>table_desc = Some demo_table\<rparr> else None)\<rparr>"

definition demo_node :: jdbc_scan_node where
  "demo_node = \<lparr>tuple_id = 0, columns = [''a'', ''b''], filters = []\<rparr>"

definition driver_found :: jdbc_driver_manager where
  "driver_found name url checksum = (OK, ''/drivers/'' @ name @ ''.jar'')"

definition driver_missing :: jdbc_driver_manager where
  "driver_missing name url checksum = (Error ''no driver'', '''')"

subsection \<open>The documented shape of the query\<close>

text \<open>
  The shape the specification gives the query, clause by clause: the word
  \<^verbatim>\<open>SELECT\<close>, the columns, \<^verbatim>\<open>FROM\<close> and the table, then a \<^verbatim>\<open>WHERE\<close> clause when
  there are filters, each in its own parentheses and joined by \<^verbatim>\<open>AND\<close>, then a
  \<^verbatim>\<open>LIMIT\<close> clause when there is a limit. The separators are those of the two queries
  the specification spells out: a comma between columns, a space before each column,
  and \<^verbatim>\<open>AND\<close> with a space before it and none after. These definitions follow the
  specification; \<^const>\<open>get_jdbc_sql\<close> follows the source.
\<close>

fun join_with :: "string \<Rightarrow> string list \<Rightarrow> string" where
  "join_with sep [] = ''''"
| "join_with sep [x] = x"
| "join_with sep (x # y # ys) = x @ sep @ join_with sep (y # ys)"

definition select_clause :: "string list \<Rightarrow> string" where
  "select_clause cols = ''SELECT'' @ join_with '','' (map (\<lambda>c. '' '' @ c) cols)"

definition from_clause :: "string \<Rightarrow> string" where
  "from_clause table = '' FROM '' @ table"

definition where_clause :: "string list \<Rightarrow> string" where
  "where_clause fs =
     (if fs = [] then '''' else '' WHERE '' @ join_with '' AND'' (map (\<lambda>f. ''('' @ f @ '')'') fs))"

definition limit_clause :: "64 word \<Rightarrow> string" where
  "limit_clause limit = (if limit = - 1 then '''' else '' LIMIT '' @ put_int64 limit)"

definition query_shape :: "string \<Rightarrow> string list \<Rightarrow> string list \<Rightarrow> 64 word \<Rightarrow> string" where
  "query_shape table cols fs limit =
     select_clause cols @ from_clause table @ where_clause fs @ limit_clause limit"

text \<open>How often a word occurs in a text, counted at every position.\<close>

fun occurrences :: "'a list \<Rightarrow> 'a list \<Rightarrow> nat" where
  "occurrences k [] = (if k = [] then 1 else 0)"
| "occurrences k (x # xs) = (if prefix k (x # xs) then 1 else 0) + occurrences k xs"

section \<open>The query text\<close>

subsection \<open>The loops write the documented clauses\<close>

lemma columns_loop_tail:
  "0 < i \<Longrightarrow> columns_loop cols i oss = oss @ concat (map (\<lambda>c. '','' @ '' '' @ c) (drop i cols))"
proof (induction cols i oss rule: columns_loop.induct)
  case (1 cols i oss)
  show ?case
  proof (cases "i < length cols")
    case True
    have "columns_loop cols i oss = columns_loop cols (Suc i) (oss @ '','' @ '' '' @ cols ! i)"
      using True "1.prems" by (subst columns_loop.simps) simp
    also have "\<dots> = (oss @ '','' @ '' '' @ cols ! i) @ concat (map (\<lambda>c. '','' @ '' '' @ c) (drop (Suc i) cols))"
      using "1.IH" [OF True] "1.prems" by simp
    also have "\<dots> = oss @ concat (map (\<lambda>c. '','' @ '' '' @ c) (drop i cols))"
      using True by (simp add: Cons_nth_drop_Suc [symmetric])
    finally show ?thesis .
  next
    case False
    then show ?thesis by (subst columns_loop.simps) simp
  qed
qed

lemma join_with_Cons:
  "join_with sep (x # xs) = x @ concat (map (\<lambda>y. sep @ y) xs)"
  by (induction xs arbitrary: x) simp_all

lemma columns_loop_select: "columns_loop cols 0 ''SELECT'' = select_clause cols"
proof (cases cols)
  case Nil
  then show ?thesis by (subst columns_loop.simps) (simp add: select_clause_def)
next
  case (Cons c cs)
  have "columns_loop cols 0 ''SELECT'' = columns_loop cols (Suc 0) (''SELECT'' @ '' '' @ c)"
    using Cons by (subst columns_loop.simps) simp
  also have "\<dots> = (''SELECT'' @ '' '' @ c) @ concat (map (\<lambda>c. '','' @ '' '' @ c) cs)"
    using Cons by (simp add: columns_loop_tail)
  also have "\<dots> = select_clause cols"
    using Cons by (simp add: select_clause_def join_with_Cons comp_def)
  finally show ?thesis .
qed

lemma filters_loop_tail:
  "0 < i \<Longrightarrow> filters_loop fs i oss = oss @ concat (map (\<lambda>f. '' AND'' @ ''('' @ f @ '')'') (drop i fs))"
proof (induction fs i oss rule: filters_loop.induct)
  case (1 fs i oss)
  show ?case
  proof (cases "i < length fs")
    case True
    have "filters_loop fs i oss = filters_loop fs (Suc i) (oss @ '' AND'' @ ''('' @ fs ! i @ '')'')"
      using True "1.prems" by (subst filters_loop.simps) simp
    also have "\<dots> = (oss @ '' AND'' @ ''('' @ fs ! i @ '')'') @ concat (map (\<lambda>f. '' AND'' @ ''('' @ f @ '')'') (drop (Suc i) fs))"
      using "1.IH" [OF True] "1.prems" by simp
    also have "\<dots> = oss @ concat (map (\<lambda>f. '' AND'' @ ''('' @ f @ '')'') (drop i fs))"
      using True by (simp add: Cons_nth_drop_Suc [symmetric])
    finally show ?thesis .
  next
    case False
    then show ?thesis by (subst filters_loop.simps) simp
  qed
qed

lemma filters_loop_where:
  "fs \<noteq> [] \<Longrightarrow> filters_loop fs 0 (oss @ '' WHERE '') = oss @ where_clause fs"
proof (cases fs)
  case Nil
  assume "fs \<noteq> []"
  with Nil show ?thesis by simp
next
  case (Cons f fs')
  have "filters_loop fs 0 (oss @ '' WHERE '') = filters_loop fs (Suc 0) ((oss @ '' WHERE '') @ ''('' @ f @ '')'')"
    using Cons by (subst filters_loop.simps) simp
  also have "\<dots> = ((oss @ '' WHERE '') @ ''('' @ f @ '')'') @ concat (map (\<lambda>f. '' AND'' @ ''('' @ f @ '')'') fs')"
    using Cons by (simp add: filters_loop_tail)
  also have "\<dots> = oss @ where_clause fs"
    using Cons by (simp add: where_clause_def join_with_Cons comp_def)
  finally show ?thesis .
qed

lemma get_jdbc_sql_shape: "get_jdbc_sql table cols fs limit = query_shape table cols fs limit"
proof (cases "fs = []")
  case True
  then show ?thesis
    by (simp add: get_jdbc_sql_def query_shape_def Let_def columns_loop_select
        from_clause_def where_clause_def limit_clause_def)
next
  case False
  have "filters_loop fs 0 ((select_clause cols @ '' FROM '' @ table) @ '' WHERE '')
      = (select_clause cols @ '' FROM '' @ table) @ where_clause fs"
    using False by (rule filters_loop_where)
  then show ?thesis
    using False
    by (simp add: get_jdbc_sql_def query_shape_def Let_def columns_loop_select
        from_clause_def limit_clause_def)
qed

text \<open>
  C3. For every table, column list, filter list and limit the text is the \<^verbatim>\<open>SELECT\<close>
  clause, the \<^verbatim>\<open>FROM\<close> clause, the \<^verbatim>\<open>WHERE\<close> clause (present when there are filters,
  each filter in its own parentheses, joined by \<^verbatim>\<open>AND\<close>) and the \<^verbatim>\<open>LIMIT\<close> clause
  (present when there is a limit), once each and in this order. The two queries of the
  specification come out byte for byte.
\<close>

theorem get_jdbc_sql_format:
  "get_jdbc_sql table cols fs limit
     = select_clause cols @ from_clause table @ where_clause fs @ limit_clause limit
   \<and> get_jdbc_sql ''t'' [''a'', ''b''] [] (- 1) = ''SELECT a, b FROM t''
   \<and> get_jdbc_sql ''t'' [''a''] [''x>1'', ''y<2''] 10
       = ''SELECT a FROM t WHERE (x>1) AND(y<2) LIMIT 10''"
proof -
  have "get_jdbc_sql ''t'' [''a'', ''b''] [] (- 1) = ''SELECT a, b FROM t''"
    by code_simp
  moreover have "get_jdbc_sql ''t'' [''a''] [''x>1'', ''y<2''] 10
      = ''SELECT a FROM t WHERE (x>1) AND(y<2) LIMIT 10''"
    by code_simp
  ultimately show ?thesis
    by (simp add: get_jdbc_sql_shape query_shape_def)
qed

text \<open>
  C9. With no columns the text starts with \<^verbatim>\<open>SELECT FROM\<close> and the table, one space
  between the two words: no column list and no star is written.
\<close>

theorem get_jdbc_sql_no_columns:
  "get_jdbc_sql table [] fs limit
     = ''SELECT FROM '' @ table @ where_clause fs @ limit_clause limit
   \<and> prefix (''SELECT FROM '' @ table) (get_jdbc_sql table [] fs limit)
   \<and> \<not> prefix ''SELECT *'' (get_jdbc_sql table [] fs limit)"
  by (simp add: get_jdbc_sql_shape query_shape_def select_clause_def from_clause_def)

subsection \<open>The \<^verbatim>\<open>LIMIT\<close> clause\<close>

lemma occurrences_absent:
  "x \<in> set k \<Longrightarrow> x \<notin> set xs \<Longrightarrow> occurrences k xs = 0"
proof (induction xs)
  case Nil
  then show ?case by auto
next
  case (Cons y ys)
  have "\<not> prefix k (y # ys)"
  proof
    assume "prefix k (y # ys)"
    then have "set k \<subseteq> set (y # ys)" by (rule set_mono_prefix)
    with Cons.prems show False by auto
  qed
  with Cons show ?case by simp
qed

lemma occurrences_LIMIT_once:
  assumes "CHR ''I'' \<notin> set body" and "CHR ''I'' \<notin> set ds"
  shows "occurrences ''LIMIT'' (body @ '' LIMIT '' @ ds) = 1"
  using assms(1)
proof (induction body)
  case Nil
  have "occurrences ''LIMIT'' ds = 0"
    by (rule occurrences_absent [OF _ assms(2)]) simp
  then show ?case by simp
next
  case (Cons b bs)
  have "\<not> prefix ''LIMIT'' ((b # bs) @ '' LIMIT '' @ ds)"
    using Cons.prems by (cases bs) auto
  with Cons show ?case by simp
qed

lemma join_with_absent:
  "x \<notin> set sep \<Longrightarrow> \<forall>y \<in> set xs. x \<notin> set y \<Longrightarrow> x \<notin> set (join_with sep xs)"
  by (induction sep xs rule: join_with.induct) auto

lemma digit_char_not_I: "d < 10 \<Longrightarrow> digit_char d \<noteq> CHR ''I''"
proof
  assume d: "d < 10" and "digit_char d = CHR ''I''"
  then have "(of_char (char_of (48 + d)) :: nat) = of_char CHR ''I''"
    by (simp add: digit_char_def)
  then have "(48 + d) mod 256 = 73" by (simp add: of_char_of)
  with d show False by simp
qed

lemma dec_nat_no_I: "CHR ''I'' \<notin> set (dec_nat n)"
proof (induction n rule: dec_nat.induct)
  case (1 n)
  show ?case
  proof (cases "n < 10")
    case True
    with digit_char_not_I [of n] show ?thesis
      by (subst dec_nat.simps) auto
  next
    case False
    with 1 have "CHR ''I'' \<notin> set (dec_nat (n div 10))" by simp
    moreover have "digit_char (n mod 10) \<noteq> CHR ''I''" by (rule digit_char_not_I) simp
    ultimately show ?thesis using False
      by (subst dec_nat.simps) auto
  qed
qed

lemma put_int64_no_I: "CHR ''I'' \<notin> set (put_int64 limit)"
  by (simp add: put_int64_def dec_int_def dec_nat_no_I)

lemma query_without_limit_no_I:
  assumes "CHR ''I'' \<notin> set table" and "\<forall>c \<in> set cols. CHR ''I'' \<notin> set c"
    and "\<forall>f \<in> set fs. CHR ''I'' \<notin> set f"
  shows "CHR ''I'' \<notin> set (select_clause cols @ from_clause table @ where_clause fs)"
proof -
  have "CHR ''I'' \<notin> set (join_with '','' (map (\<lambda>c. '' '' @ c) cols))"
    using assms(2) by (intro join_with_absent) auto
  moreover have "CHR ''I'' \<notin> set (join_with '' AND'' (map (\<lambda>f. ''('' @ f @ '')'') fs))"
    using assms(3) by (intro join_with_absent) auto
  ultimately show ?thesis
    using assms(1) by (simp add: select_clause_def from_clause_def where_clause_def)
qed

text \<open>
  C4. With a limit other than \<open>-1\<close> the text is the text without a limit followed by
  \<^verbatim>\<open>LIMIT\<close> and the number: the clause comes last, after the filters of the \<^verbatim>\<open>WHERE\<close>
  clause. With the limit \<open>-1\<close> the text ends with the \<^verbatim>\<open>WHERE\<close> clause. Where the table,
  the columns and the filters do not themselves hold the letter \<^verbatim>\<open>I\<close>, the word \<^verbatim>\<open>LIMIT\<close>
  occurs exactly once in the first case and not at all in the second.
\<close>

theorem limit_clause_last_and_once:
  "get_jdbc_sql table cols fs (- 1) = select_clause cols @ from_clause table @ where_clause fs
   \<and> (limit \<noteq> - 1 \<longrightarrow>
        get_jdbc_sql table cols fs limit
          = get_jdbc_sql table cols fs (- 1) @ '' LIMIT '' @ put_int64 limit)
   \<and> (CHR ''I'' \<notin> set table \<and> (\<forall>c \<in> set cols. CHR ''I'' \<notin> set c)
        \<and> (\<forall>f \<in> set fs. CHR ''I'' \<notin> set f)
      \<longrightarrow> occurrences ''LIMIT'' (get_jdbc_sql table cols fs limit) = (if limit = - 1 then 0 else 1))"
proof (intro conjI impI)
  show a: "get_jdbc_sql table cols fs (- 1) = select_clause cols @ from_clause table @ where_clause fs"
    by (simp add: get_jdbc_sql_shape query_shape_def limit_clause_def)
  show b: "get_jdbc_sql table cols fs limit
          = get_jdbc_sql table cols fs (- 1) @ '' LIMIT '' @ put_int64 limit" if "limit \<noteq> - 1"
    using that by (simp add: get_jdbc_sql_shape query_shape_def limit_clause_def)
  assume "CHR ''I'' \<notin> set table \<and> (\<forall>c \<in> set cols. CHR ''I'' \<notin> set c)
        \<and> (\<forall>f \<in> set fs. CHR ''I'' \<notin> set f)"
  then have n: "CHR ''I'' \<notin> set (get_jdbc_sql table cols fs (- 1))"
    unfolding a by (intro query_without_limit_no_I) simp_all
  show "occurrences ''LIMIT'' (get_jdbc_sql table cols fs limit) = (if limit = - 1 then 0 else 1)"
  proof (cases "limit = - 1")
    case True
    have "occurrences ''LIMIT'' (get_jdbc_sql table cols fs (- 1)) = 0"
      by (rule occurrences_absent [OF _ n]) simp
    with True show ?thesis by simp
  next
    case False
    have "occurrences ''LIMIT'' (get_jdbc_sql table cols fs (- 1) @ '' LIMIT '' @ put_int64 limit) = 1"
      by (rule occurrences_LIMIT_once [OF n put_int64_no_I])
    with False b show ?thesis by simp
  qed
qed

theorem limit_clause_last_and_once_witness:
  "get_jdbc_sql ''t'' [''a''] [''x>1'', ''y<2''] 10
     = get_jdbc_sql ''t'' [''a''] [''x>1'', ''y<2''] (- 1) @ '' LIMIT 10''
   \<and> get_jdbc_sql ''t'' [''a''] [''x>1'', ''y<2''] (- 1) = ''SELECT a FROM t WHERE (x>1) AND(y<2)''
   \<and> occurrences ''LIMIT'' (get_jdbc_sql ''t'' [''a''] [''x>1'', ''y<2''] 10) = 1
   \<and> occurrences ''LIMIT'' (get_jdbc_sql ''t'' [''a''] [''x>1'', ''y<2''] (- 1)) = 0"
proof -
  note T = limit_clause_last_and_once [where table = "''t''" and cols = "[''a'']"
      and fs = "[''x>1'', ''y<2'']"]
  have p: "put_int64 10 = ''10''" by code_simp
  have h1: "(10 :: 64 word) \<noteq> - 1" by simp
  have h2: "CHR ''I'' \<notin> set ''t'' \<and> (\<forall>c \<in> set [''a'']. CHR ''I'' \<notin> set c)
        \<and> (\<forall>f \<in> set [''x>1'', ''y<2'']. CHR ''I'' \<notin> set f)"
    by simp
  have a: "get_jdbc_sql ''t'' [''a''] [''x>1'', ''y<2''] 10
     = get_jdbc_sql ''t'' [''a''] [''x>1'', ''y<2''] (- 1) @ '' LIMIT '' @ put_int64 10"
    using T [where limit = 10, THEN conjunct2, THEN conjunct1] h1 by (rule mp)
  have b: "get_jdbc_sql ''t'' [''a''] [''x>1'', ''y<2''] (- 1) = ''SELECT a FROM t WHERE (x>1) AND(y<2)''"
    using T [where limit = 10, THEN conjunct1]
    by (simp add: select_clause_def from_clause_def where_clause_def)
  have c: "occurrences ''LIMIT'' (get_jdbc_sql ''t'' [''a''] [''x>1'', ''y<2''] 10)
            = (if (10 :: 64 word) = - 1 then 0 else 1)"
    using T [where limit = 10, THEN conjunct2, THEN conjunct2] h2 by (rule mp)
  have d: "occurrences ''LIMIT'' (get_jdbc_sql ''t'' [''a''] [''x>1'', ''y<2''] (- 1))
            = (if (- 1 :: 64 word) = - 1 then 0 else 1)"
    using T [where limit = "- 1", THEN conjunct2, THEN conjunct2] h2 by (rule mp)
  from a b c d p show ?thesis by simp
qed

section \<open>The scan session\<close>

subsection \<open>The loop and the fetches it throws away\<close>

lemma fetch_loop_stop:
  "scanner_get_next scn sc c e = (st, c', e', sc') \<Longrightarrow> st \<noteq> OK \<or> e' \<or> num_rows c' \<noteq> 0
   \<Longrightarrow> fetch_loop scn sc c e = Some (st, c', e', sc')"
  by (subst fetch_loop.simps) auto

lemma fetch_loop_skip:
  "scanner_get_next scn sc c e = (OK, c', False, sc') \<Longrightarrow> num_rows c' = 0
   \<Longrightarrow> fetch_loop scn sc c e = fetch_loop scn sc' c' False"
  by (subst fetch_loop.simps) simp

lemma discards_fetch_loop:
  "discards scn p q \<Longrightarrow> fetch_loop scn (fst p) (snd p) False = fetch_loop scn (fst q) (snd q) False"
  by (induction rule: discards.induct) (simp_all add: fetch_loop_skip)

lemma fetch_loop_SomeD:
  assumes "fetch_loop scn sc c False = Some r"
  shows "\<exists>sc2 c2. discards scn (sc, c) (sc2, c2) \<and> scanner_get_next scn sc2 c2 False = r \<and> stops r"
proof -
  let ?P = "\<lambda>scn sc c e r. \<not> e \<longrightarrow>
      (\<exists>sc2 c2. discards scn (sc, c) (sc2, c2) \<and> scanner_get_next scn sc2 c2 False = r \<and> stops r)"
  have "?P scn sc c False r"
  proof (rule fetch_loop.raw_induct [where P = ?P, OF _ assms], goal_cases)
    case (1 f scn sc c e r)
    obtain st c1 e1 sc1 where g: "scanner_get_next scn sc c e = (st, c1, e1, sc1)"
      by (cases "scanner_get_next scn sc c e") auto
    show ?case
    proof
      assume ne: "\<not> e"
      show "\<exists>sc2 c2. discards scn (sc, c) (sc2, c2) \<and> scanner_get_next scn sc2 c2 False = r \<and> stops r"
      proof (cases "st = OK \<and> \<not> e1 \<and> num_rows c1 = 0")
        case True
        with 1(2) g have "f scn sc1 c1 e1 = Some r" by simp
        from 1(1) [OF this] True obtain sc2 c2 where
          d: "discards scn (sc1, c1) (sc2, c2)" and
          r: "scanner_get_next scn sc2 c2 False = r" "stops r"
          by blast
        from g True ne have "scanner_get_next scn sc c False = (OK, c1, False, sc1)" by simp
        from discards_more [OF this _ d] True have "discards scn (sc, c) (sc2, c2)" by simp
        with r show ?thesis by blast
      next
        case False
        with 1(2) g have "r = (st, c1, e1, sc1)" by (auto split: if_splits)
        with False g ne have "scanner_get_next scn sc c False = r" "stops r"
          by (auto simp: stops_def)
        then show ?thesis using discards_none [of scn sc c] by blast
      qed
    qed
  qed
  then show ?thesis by simp
qed

lemma fetch_loop_SomeI:
  assumes "discards scn (sc, c) (sc2, c2)" "scanner_get_next scn sc2 c2 False = r" "stops r"
  shows "fetch_loop scn sc c False = Some r"
proof -
  obtain st c' e' sc' where r: "r = (st, c', e', sc')" by (cases r) auto
  from assms(3) r have "st \<noteq> OK \<or> e' \<or> num_rows c' \<noteq> 0" by (auto simp: stops_def)
  with assms(2) r have "fetch_loop scn sc2 c2 False = Some r" by (simp add: fetch_loop_stop)
  with discards_fetch_loop [OF assms(1)] show ?thesis by simp
qed

text \<open>A scanner that keeps answering without rows and without the end keeps the loop running.\<close>

lemma fetch_loop_forever:
  assumes "\<forall>sc c. \<exists>c' sc'. scanner_get_next scn sc c False = (OK, c', False, sc') \<and> num_rows c' = 0"
  shows "fetch_loop scn sc c False = None"
proof (rule ccontr)
  assume "fetch_loop scn sc c False \<noteq> None"
  then obtain r where "fetch_loop scn sc c False = Some r" by blast
  from fetch_loop_SomeD [OF this] obtain sc2 c2 where
    r: "scanner_get_next scn sc2 c2 False = r" "stops r" by blast
  from assms obtain c' sc' where
    "scanner_get_next scn sc2 c2 False = (OK, c', False, sc')" "num_rows c' = 0" by blast
  with r show False by (auto simp: stops_def)
qed

subsection \<open>\<^verbatim>\<open>get_next\<close>, case by case\<close>

lemma get_next_null:
  "scanner s = None \<Longrightarrow> get_next scn s chunk = Some (Inl NullPointer)"
  by (simp add: get_next_def)

lemma get_next_reset_failed:
  "scanner s = Some sc \<Longrightarrow> scanner_reset_jni_env scn sc = (st, sc1) \<Longrightarrow> st \<noteq> OK
   \<Longrightarrow> get_next scn s chunk = Some (Inr (st, chunk, s\<lparr>scanner := Some sc1\<rparr>))"
  by (simp add: get_next_def)

lemma get_next_fetched:
  "scanner s = Some sc \<Longrightarrow> scanner_reset_jni_env scn sc = (OK, sc1)
   \<Longrightarrow> fetch_loop scn sc1 (init_chunk 0) False = Some (st, c', e', sc')
   \<Longrightarrow> get_next scn s chunk =
        Some (Inr (if st \<noteq> OK then (st, c', s\<lparr>scanner := Some sc'\<rparr>)
                   else if e' then (EndOfFile '''', c', s\<lparr>scanner := Some sc'\<rparr>)
                   else (OK, c', s\<lparr>scanner := Some sc',
                           rows_read := rows_read s + word_of_nat (num_rows c')\<rparr>)))"
  by (simp add: get_next_def)

lemma get_next_diverges:
  "scanner s = Some sc \<Longrightarrow> scanner_reset_jni_env scn sc = (OK, sc1)
   \<Longrightarrow> fetch_loop scn sc1 (init_chunk 0) False = None
   \<Longrightarrow> get_next scn s chunk = None"
  by (simp add: get_next_def)

lemma get_next_OK_D:
  assumes "get_next scn s chunk = Some (Inr (OK, c', s'))"
  shows "\<exists>sc sc1 sc2 c2 sc3.
           scanner s = Some sc \<and> scanner_reset_jni_env scn sc = (OK, sc1)
         \<and> discards scn (sc1, init_chunk 0) (sc2, c2)
         \<and> scanner_get_next scn sc2 c2 False = (OK, c', False, sc3)
         \<and> num_rows c' \<noteq> 0
         \<and> s' = s\<lparr>scanner := Some sc3, rows_read := rows_read s + word_of_nat (num_rows c')\<rparr>"
proof -
  from assms obtain sc where sc: "scanner s = Some sc"
    by (cases "scanner s") (auto simp: get_next_def)
  obtain st1 sc1 where r: "scanner_reset_jni_env scn sc = (st1, sc1)"
    by (cases "scanner_reset_jni_env scn sc") auto
  from assms sc r have st1: "st1 = OK"
    by (auto simp: get_next_def split: if_splits)
  from assms sc r st1 obtain st c1 e1 sc3 where
    f: "fetch_loop scn sc1 (init_chunk 0) False = Some (st, c1, e1, sc3)"
    by (cases "fetch_loop scn sc1 (init_chunk 0) False") (auto simp: get_next_def)
  from assms have res: "st = OK" "\<not> e1" "c1 = c'"
      "s' = s\<lparr>scanner := Some sc3, rows_read := rows_read s + word_of_nat (num_rows c')\<rparr>"
    unfolding get_next_fetched [OF sc r [unfolded st1] f]
    by (auto split: if_splits)
  from fetch_loop_SomeD [OF f] obtain sc2 c2 where
    d: "discards scn (sc1, init_chunk 0) (sc2, c2)"
      "scanner_get_next scn sc2 c2 False = (st, c1, e1, sc3)" "stops (st, c1, e1, sc3)"
    by blast
  from d(3) res have "num_rows c' \<noteq> 0" by (simp add: stops_def)
  with sc r st1 d res show ?thesis by auto
qed

lemma get_next_rows_read:
  assumes "get_next scn s chunk = Some (Inr (st, c', s'))"
  shows "rows_read s' = rows_read s + (if st = OK then word_of_nat (num_rows c') else 0)"
proof -
  from assms obtain sc where sc: "scanner s = Some sc"
    by (cases "scanner s") (auto simp: get_next_def)
  obtain st1 sc1 where r: "scanner_reset_jni_env scn sc = (st1, sc1)"
    by (cases "scanner_reset_jni_env scn sc") auto
  show ?thesis
  proof (cases "st1 = OK")
    case False
    with assms sc r show ?thesis by (auto simp: get_next_reset_failed)
  next
    case True
    with assms sc r obtain st2 c1 e1 sc3 where
      f: "fetch_loop scn sc1 (init_chunk 0) False = Some (st2, c1, e1, sc3)"
      by (cases "fetch_loop scn sc1 (init_chunk 0) False") (auto simp: get_next_def)
    from assms show ?thesis
      unfolding get_next_fetched [OF sc r [unfolded True] f]
      by (auto split: if_splits)
  qed
qed

subsection \<open>The scripted scanner\<close>

lemma scripted_sel:
  "scanner_new (scripted init) = (\<lambda>ctx. init)"
  "scanner_open (scripted init) = (\<lambda>sc. (OK, sc))"
  "scanner_reset_jni_env (scripted init) = (\<lambda>sc. (OK, sc))"
  "scanner_get_next (scripted init) = scripted_get_next"
  "scanner_close (scripted init) = (\<lambda>sc. (OK, sc\<lparr>closes := Suc (closes sc)\<rparr>))"
  by (simp_all add: scripted_def)

lemma fetch_loop_scripted_Nil:
  "script sc = [] \<Longrightarrow> fetch_loop (scripted i) sc c e = Some (OK, c, True, sc)"
  by (rule fetch_loop_stop) (simp_all add: scripted_sel scripted_get_next_def)

lemma fetch_loop_scripted_Cons:
  "script sc = (st, rows, e') # rest \<Longrightarrow>
   fetch_loop (scripted i) sc c e =
     (if st = OK \<and> \<not> e' \<and> rows = []
      then fetch_loop (scripted i) (sc\<lparr>script := rest\<rparr>) rows e'
      else Some (st, rows, e', sc\<lparr>script := rest\<rparr>))"
  by (subst fetch_loop.simps) (auto simp: scripted_sel scripted_get_next_def num_rows_def)

lemma fetch_loop_scripted_simps:
  "fetch_loop (scripted i) \<lparr>script = [], closes = n\<rparr> c e
     = Some (OK, c, True, \<lparr>script = [], closes = n\<rparr>)"
  "fetch_loop (scripted i) \<lparr>script = (st, rows, e') # rest, closes = n\<rparr> c e =
     (if st = OK \<and> \<not> e' \<and> rows = []
      then fetch_loop (scripted i) \<lparr>script = rest, closes = n\<rparr> rows e'
      else Some (st, rows, e', \<lparr>script = rest, closes = n\<rparr>))"
  by (simp_all add: fetch_loop_scripted_Nil fetch_loop_scripted_Cons)

lemma fetch_loop_scripted_returns:
  "\<exists>r. fetch_loop (scripted i) sc c e = Some r"
proof (induction "script sc" arbitrary: sc c e)
  case Nil
  then have "script sc = []" by simp
  then show ?case using fetch_loop_scripted_Nil by blast
next
  case (Cons x xs)
  obtain st rows e' where x: "x = (st, rows, e')" by (cases x) auto
  from Cons(2) [symmetric] x have s: "script sc = (st, rows, e') # xs" by simp
  have "xs = script (sc\<lparr>script := xs\<rparr>)" by simp
  from Cons(1) [OF this] obtain r where
    r: "fetch_loop (scripted i) (sc\<lparr>script := xs\<rparr>) rows e' = Some r" by blast
  show ?case
  proof (cases "st = OK \<and> \<not> e' \<and> rows = []")
    case True
    have "fetch_loop (scripted i) sc c e = Some r"
      by (simp only: fetch_loop_scripted_Cons [OF s] if_P [OF True] r)
    then show ?thesis by blast
  next
    case False
    have "fetch_loop (scripted i) sc c e = Some (st, rows, e', sc\<lparr>script := xs\<rparr>)"
      by (simp only: fetch_loop_scripted_Cons [OF s] if_not_P [OF False])
    then show ?thesis by blast
  qed
qed

lemma get_next_scripted_returns:
  "\<exists>r. get_next (scripted i) s chunk = Some r"
proof (cases "scanner s")
  case None
  then show ?thesis by (simp add: get_next_null)
next
  case (Some sc)
  obtain st c' e' sc' where "fetch_loop (scripted i) sc (init_chunk 0) False = Some (st, c', e', sc')"
    using fetch_loop_scripted_returns [of i sc "init_chunk 0" False] by (metis prod_cases4)
  with Some show ?thesis
    by (simp add: get_next_fetched [where ?sc1.0 = sc] scripted_sel)
qed

lemmas run_simps =
  perform_def open_def create_scanner_def get_next_def close_def new_data_source_def
  raw_rows_read_def Let_def batches_def init_chunk_def num_rows_def scripted_sel
  fetch_loop_scripted_simps demo_table_def demo_state_def demo_node_def driver_found_def
  driver_missing_def transcript_def final_state_def

section \<open>The claims about the scan session\<close>

text \<open>
  C1. A scanner yields batches of 0, 0, 5, 0, 3 and 0 rows and then signals the end.
  The caller opens the data source and calls \<^verbatim>\<open>get_next\<close> three times, reading the
  counter around every call. It is handed the batch of five rows and then the batch of
  three, each with \<^verbatim>\<open>OK\<close>, and the third call ends the data: exactly two batches are
  delivered. The counter reads 0 before the first batch, 5 after it and 8 after the second.
\<close>

theorem scan_two_batches:
  assumes "length b5 = 5" and "length b3 = 3"
  shows "let run = session driver_found
                     (scripted \<lparr>script = batches [[], [], b5, [], b3, []], closes = 0\<rparr>)
                     demo_state
                     [RawRowsRead, Open, RawRowsRead, GetNext, RawRowsRead, GetNext,
                      RawRowsRead, GetNext, RawRowsRead]
                     (new_data_source demo_node)
         in transcript run
              = Some [RowsReadReply 0, OpenReply OK, RowsReadReply 0,
                      NextReply OK b5, RowsReadReply 5,
                      NextReply OK b3, RowsReadReply 8,
                      NextReply (EndOfFile '''') [], RowsReadReply 8]
            \<and> map_option delivered (transcript run) = Some [b5, b3]"
proof -
  from assms have "b5 \<noteq> []" "b3 \<noteq> []" by auto
  with assms show ?thesis by (simp add: run_simps)
qed

theorem scan_two_batches_witness:
  "let run = session driver_found
               (scripted \<lparr>script = batches [[], [], [1, 2, 3, 4, 5 :: nat], [], [6, 7, 8], []],
                          closes = 0\<rparr>)
               demo_state
               [RawRowsRead, Open, RawRowsRead, GetNext, RawRowsRead, GetNext,
                RawRowsRead, GetNext, RawRowsRead]
               (new_data_source demo_node)
   in transcript run
        = Some [RowsReadReply 0, OpenReply OK, RowsReadReply 0,
                NextReply OK [1, 2, 3, 4, 5], RowsReadReply 5,
                NextReply OK [6, 7, 8], RowsReadReply 8,
                NextReply (EndOfFile '''') [], RowsReadReply 8]
      \<and> map_option delivered (transcript run) = Some [[1, 2, 3, 4, 5], [6, 7, 8]]"
proof -
  have "length [1, 2, 3, 4, 5 :: nat] = 5" and "length [6, 7, 8 :: nat] = 3"
    by simp_all
  then show ?thesis by (rule scan_two_batches)
qed

text \<open>
  C2. Whatever the scanner does, a batch that \<^verbatim>\<open>get_next\<close> returns with \<^verbatim>\<open>OK\<close> has at
  least one row. A fetch that succeeds with no rows and without the end flag is thrown
  away: the loop goes on with the next fetch. When, after such fetches, a fetch raises
  the end flag, \<^verbatim>\<open>get_next\<close> returns \<^verbatim>\<open>EndOfFile\<close> and no batch. With a scanner that
  yields a finite sequence and then the end, \<^verbatim>\<open>get_next\<close> always returns.
\<close>

theorem get_next_never_empty:
  "(get_next scn s chunk = Some (Inr (OK, c', s')) \<longrightarrow> num_rows c' \<noteq> 0)
   \<and> (scanner_get_next scn sc c False = (OK, c1, False, sc1) \<and> num_rows c1 = 0
        \<longrightarrow> fetch_loop scn sc c False = fetch_loop scn sc1 c1 False)
   \<and> (scanner s = Some sc0 \<and> scanner_reset_jni_env scn sc0 = (OK, sc2)
        \<and> discards scn (sc2, init_chunk 0) (sc3, c3)
        \<and> scanner_get_next scn sc3 c3 False = (OK, c4, True, sc4)
        \<longrightarrow> get_next scn s chunk = Some (Inr (EndOfFile '''', c4, s\<lparr>scanner := Some sc4\<rparr>)))
   \<and> (\<exists>r. get_next (scripted init) t chunk = Some r)"
proof (intro conjI impI)
  assume "get_next scn s chunk = Some (Inr (OK, c', s'))"
  from get_next_OK_D [OF this] show "num_rows c' \<noteq> 0" by blast
next
  assume "scanner_get_next scn sc c False = (OK, c1, False, sc1) \<and> num_rows c1 = 0"
  then show "fetch_loop scn sc c False = fetch_loop scn sc1 c1 False"
    by (simp add: fetch_loop_skip)
next
  assume a: "scanner s = Some sc0 \<and> scanner_reset_jni_env scn sc0 = (OK, sc2)
        \<and> discards scn (sc2, init_chunk 0) (sc3, c3)
        \<and> scanner_get_next scn sc3 c3 False = (OK, c4, True, sc4)"
  then have "fetch_loop scn sc2 (init_chunk 0) False = Some (OK, c4, True, sc4)"
    by (intro fetch_loop_SomeI [where ?sc2.0 = sc3 and ?c2.0 = c3]) (simp_all add: stops_def)
  with a show "get_next scn s chunk = Some (Inr (EndOfFile '''', c4, s\<lparr>scanner := Some sc4\<rparr>))"
    by (simp add: get_next_fetched [where sc = sc0 and ?sc1.0 = sc2])
next
  show "\<exists>r. get_next (scripted init) t chunk = Some r"
    by (rule get_next_scripted_returns)
qed

theorem get_next_never_empty_witness:
  "num_rows [1 :: nat, 2] \<noteq> 0
   \<and> fetch_loop (scripted \<lparr>script = batches [[], [1 :: nat, 2]], closes = 0\<rparr>)
        \<lparr>script = batches [[], [1, 2]], closes = 0\<rparr> [] False
     = fetch_loop (scripted \<lparr>script = batches [[], [1, 2]], closes = 0\<rparr>)
        \<lparr>script = batches [[1, 2]], closes = 0\<rparr> [] False
   \<and> get_next (scripted \<lparr>script = batches [[]], closes = 0\<rparr>)
        ((new_data_source demo_node)\<lparr>scanner := Some \<lparr>script = batches [[] :: nat list], closes = 0\<rparr>\<rparr>) [9]
     = Some (Inr (EndOfFile '''', [],
          (new_data_source demo_node)\<lparr>scanner := Some \<lparr>script = [], closes = 0\<rparr>\<rparr>))"
proof -
  let ?i = "\<lparr>script = batches [[], [1 :: nat, 2]], closes = 0\<rparr>"
  let ?i1 = "\<lparr>script = batches [[1 :: nat, 2]], closes = 0\<rparr>"
  let ?s = "(new_data_source demo_node)\<lparr>scanner := Some ?i\<rparr>"
  let ?s' = "?s\<lparr>scanner := Some \<lparr>script = [], closes = 0\<rparr>, rows_read := 2\<rparr>"
  let ?j = "\<lparr>script = batches [[] :: nat list], closes = 0\<rparr>"
  let ?j1 = "\<lparr>script = [] :: (status \<times> nat list \<times> bool) list, closes = 0\<rparr>"
  let ?t = "(new_data_source demo_node)\<lparr>scanner := Some ?j\<rparr>"
  have h1: "get_next (scripted ?i) ?s [] = Some (Inr (OK, [1, 2], ?s'))"
    by (simp add: run_simps)
  have h2: "scanner_get_next (scripted ?i) ?i [] False = (OK, [], False, ?i1) \<and> num_rows ([] :: nat list) = 0"
    by (simp add: run_simps scripted_get_next_def)
  have d: "discards (scripted ?j) (?j, init_chunk 0) (?j1, [])"
    by (rule discards_more [OF _ _ discards_none])
       (simp_all add: run_simps scripted_get_next_def)
  have h3: "scanner ?t = Some ?j \<and> scanner_reset_jni_env (scripted ?j) ?j = (OK, ?j)
        \<and> discards (scripted ?j) (?j, init_chunk 0) (?j1, [])
        \<and> scanner_get_next (scripted ?j) ?j1 [] False = (OK, [], True, ?j1)"
    using d by (simp add: run_simps scripted_get_next_def)
  note T = get_next_never_empty [where scn = "scripted ?i" and s = ?s and chunk = "[]"
      and c' = "[1, 2]" and s' = ?s' and sc = ?i and c = "[]" and ?c1.0 = "[]" and ?sc1.0 = ?i1]
  note U = get_next_never_empty [where scn = "scripted ?j" and s = ?t and chunk = "[9]"
      and ?sc0.0 = ?j and ?sc2.0 = ?j and ?sc3.0 = ?j1 and ?c3.0 = "[]" and ?c4.0 = "[]"
      and ?sc4.0 = ?j1]
  have a: "num_rows [1 :: nat, 2] \<noteq> 0"
    using T [THEN conjunct1] h1 by (rule mp)
  have b: "fetch_loop (scripted ?i) ?i [] False = fetch_loop (scripted ?i) ?i1 [] False"
    using T [THEN conjunct2, THEN conjunct1] h2 by (rule mp)
  have c: "get_next (scripted ?j) ?t [9] = Some (Inr (EndOfFile '''', [], ?t\<lparr>scanner := Some ?j1\<rparr>))"
    using U [THEN conjunct2, THEN conjunct2, THEN conjunct1] h3 by (rule mp)
  from a b c show ?thesis by simp
qed

text \<open>
  C10. When the fetch that ends the loop raises the end flag and leaves rows in the chunk
  in the same call, \<^verbatim>\<open>get_next\<close> returns \<^verbatim>\<open>EndOfFile\<close>: the rows are not a delivered
  batch and the counter stays as it was. A batch that is delivered with \<^verbatim>\<open>OK\<close>, and
  counted, comes from a fetch that left the end flag down.
\<close>

theorem end_with_rows_not_delivered:
  "(scanner s = Some sc0 \<and> scanner_reset_jni_env scn sc0 = (OK, sc1)
      \<and> discards scn (sc1, init_chunk 0) (sc2, c2)
      \<and> scanner_get_next scn sc2 c2 False = (OK, rows, True, sc3) \<and> num_rows rows \<noteq> 0
    \<longrightarrow> get_next scn s chunk = Some (Inr (EndOfFile '''', rows, s\<lparr>scanner := Some sc3\<rparr>))
        \<and> raw_rows_read (s\<lparr>scanner := Some sc3\<rparr>) = raw_rows_read s
        \<and> delivered [NextReply (EndOfFile '''') rows] = [])
   \<and> (get_next scn s chunk = Some (Inr (OK, c', s'))
    \<longrightarrow> (\<exists>sc0 sc1 sc2 c2 sc3.
           scanner s = Some sc0 \<and> scanner_reset_jni_env scn sc0 = (OK, sc1)
         \<and> discards scn (sc1, init_chunk 0) (sc2, c2)
         \<and> scanner_get_next scn sc2 c2 False = (OK, c', False, sc3))
        \<and> raw_rows_read s' = raw_rows_read s + word_of_nat (num_rows c'))"
proof (intro conjI impI)
  assume a: "scanner s = Some sc0 \<and> scanner_reset_jni_env scn sc0 = (OK, sc1)
      \<and> discards scn (sc1, init_chunk 0) (sc2, c2)
      \<and> scanner_get_next scn sc2 c2 False = (OK, rows, True, sc3) \<and> num_rows rows \<noteq> 0"
  then have "fetch_loop scn sc1 (init_chunk 0) False = Some (OK, rows, True, sc3)"
    by (intro fetch_loop_SomeI [where ?sc2.0 = sc2 and ?c2.0 = c2]) (simp_all add: stops_def)
  with a show "get_next scn s chunk = Some (Inr (EndOfFile '''', rows, s\<lparr>scanner := Some sc3\<rparr>))"
    by (simp add: get_next_fetched [where sc = sc0 and ?sc1.0 = sc1])
  show "raw_rows_read (s\<lparr>scanner := Some sc3\<rparr>) = raw_rows_read s"
    by (simp add: raw_rows_read_def)
  show "delivered [NextReply (EndOfFile '''') rows] = []"
    by simp
next
  assume a: "get_next scn s chunk = Some (Inr (OK, c', s'))"
  from get_next_OK_D [OF a]
  show "\<exists>sc0 sc1 sc2 c2 sc3.
           scanner s = Some sc0 \<and> scanner_reset_jni_env scn sc0 = (OK, sc1)
         \<and> discards scn (sc1, init_chunk 0) (sc2, c2)
         \<and> scanner_get_next scn sc2 c2 False = (OK, c', False, sc3)"
    by blast
  from get_next_rows_read [OF a]
  show "raw_rows_read s' = raw_rows_read s + word_of_nat (num_rows c')"
    by (simp add: raw_rows_read_def)
qed

theorem end_with_rows_not_delivered_witness:
  "get_next (scripted \<lparr>script = [(OK, [7 :: nat, 8, 9], True)], closes = 0\<rparr>)
     ((new_data_source demo_node)
        \<lparr>scanner := Some \<lparr>script = [(OK, [7 :: nat, 8, 9], True)], closes = 0\<rparr>\<rparr>) []
     = Some (Inr (EndOfFile '''', [7, 8, 9],
         (new_data_source demo_node)\<lparr>scanner := Some \<lparr>script = [], closes = 0\<rparr>\<rparr>))
   \<and> raw_rows_read ((new_data_source demo_node)
         \<lparr>scanner := Some \<lparr>script = [] :: (status \<times> nat list \<times> bool) list, closes = 0\<rparr>\<rparr>) = 0
   \<and> raw_rows_read ((new_data_source demo_node)
         \<lparr>scanner := Some \<lparr>script = [] :: (status \<times> nat list \<times> bool) list, closes = 0\<rparr>,
          rows_read := 2\<rparr>) = 2"
proof -
  let ?i = "\<lparr>script = [(OK, [7 :: nat, 8, 9], True)], closes = 0\<rparr>"
  let ?e = "\<lparr>script = [] :: (status \<times> nat list \<times> bool) list, closes = 0\<rparr>"
  let ?s = "(new_data_source demo_node)\<lparr>scanner := Some ?i\<rparr>"
  let ?j = "\<lparr>script = batches [[1 :: nat, 2]], closes = 0\<rparr>"
  let ?t = "(new_data_source demo_node)\<lparr>scanner := Some ?j\<rparr>"
  let ?t' = "(new_data_source demo_node)\<lparr>scanner := Some ?e, rows_read := 2\<rparr>"
  have h1: "scanner ?s = Some ?i \<and> scanner_reset_jni_env (scripted ?i) ?i = (OK, ?i)
      \<and> discards (scripted ?i) (?i, init_chunk 0) (?i, init_chunk 0)
      \<and> scanner_get_next (scripted ?i) ?i (init_chunk 0) False = (OK, [7, 8, 9], True, ?e)
      \<and> num_rows [7 :: nat, 8, 9] \<noteq> 0"
    by (simp add: run_simps scripted_get_next_def discards_none)
  have h2: "get_next (scripted ?j) ?t [] = Some (Inr (OK, [1, 2], ?t'))"
    by (simp add: run_simps)
  note T = end_with_rows_not_delivered [where scn = "scripted ?i" and s = ?s and chunk = "[]"
      and ?sc0.0 = ?i and ?sc1.0 = ?i and ?sc2.0 = ?i and ?c2.0 = "init_chunk 0"
      and rows = "[7, 8, 9]" and ?sc3.0 = ?e]
  note U = end_with_rows_not_delivered [where scn = "scripted ?j" and s = ?t and chunk = "[]"
      and c' = "[1, 2]" and s' = ?t']
  have a: "get_next (scripted ?i) ?s [] = Some (Inr (EndOfFile '''', [7, 8, 9], ?s\<lparr>scanner := Some ?e\<rparr>))
        \<and> raw_rows_read (?s\<lparr>scanner := Some ?e\<rparr>) = raw_rows_read ?s
        \<and> delivered [NextReply (EndOfFile '''') [7 :: nat, 8, 9]] = []"
    using T [THEN conjunct1] h1 by (rule mp)
  have b: "raw_rows_read ?t' = raw_rows_read ?t + word_of_nat (num_rows [1 :: nat, 2])"
    using U [THEN conjunct2] h2 by (rule mp [THEN conjunct2])
  from a b show ?thesis
    by (simp add: raw_rows_read_def new_data_source_def num_rows_def)
qed

subsection \<open>\<^verbatim>\<open>open\<close> and \<^verbatim>\<open>close\<close>\<close>

lemma create_scanner_rows_read:
  "create_scanner mgr scn s = Inr (st, s') \<Longrightarrow> rows_read s' = rows_read s"
  by (auto simp: create_scanner_def Let_def split: option.splits prod.splits if_splits)

lemma open_rows_read:
  "open mgr scn state s = Inr (st, s') \<Longrightarrow> rows_read s' = rows_read s"
  by (auto simp: open_def Let_def split: sum.splits prod.splits if_splits
      dest!: create_scanner_rows_read)

lemma close_rows_read: "rows_read (close scn s) = rows_read s"
  by (simp add: close_def Let_def split: option.splits prod.splits)

lemma close_no_scanner: "scanner s = None \<Longrightarrow> close scn s = s"
  by (simp add: close_def)

lemma close_scanner:
  "scanner s = Some sc \<Longrightarrow>
   close scn s = s\<lparr>scanner := Some (snd (scanner_close scn (snd (scanner_reset_jni_env scn sc))))\<rparr>"
  by (simp add: close_def Let_def split: prod.splits)

lemma open_driver_failed:
  assumes "desc_tbl state (tuple_id (provider s)) = Some td" and "table_desc td = Some tbl"
    and "mgr (jdbc_driver_name tbl) (jdbc_driver_url tbl) (jdbc_driver_checksum tbl) = (st, loc)"
    and "st \<noteq> OK"
  shows "open mgr scn state s = Inr (st, s\<lparr>runtime_state := Some state, tuple_desc := Some td\<rparr>)"
  using assms by (simp add: open_def create_scanner_def Let_def)

text \<open>
  C7. When the driver manager cannot resolve the driver, \<^verbatim>\<open>open\<close> on a new data source
  returns the manager's error. No scanner has been created, so \<^verbatim>\<open>close\<close> then changes
  nothing, and the counter reads 0 before and after it.
\<close>

theorem open_driver_resolution_fails:
  assumes "desc_tbl state (tuple_id node) = Some td" and "table_desc td = Some tbl"
    and "mgr (jdbc_driver_name tbl) (jdbc_driver_url tbl) (jdbc_driver_checksum tbl) = (st, loc)"
    and "st \<noteq> OK"
  shows "let s' = (new_data_source node)\<lparr>runtime_state := Some state, tuple_desc := Some td\<rparr>
         in open mgr scn state (new_data_source node) = Inr (st, s')
          \<and> scanner s' = None \<and> close scn s' = s'
          \<and> raw_rows_read s' = 0 \<and> raw_rows_read (close scn s') = 0
          \<and> session mgr scn state [Open, RawRowsRead, Close, RawRowsRead] (new_data_source node)
              = Some (Inr ([OpenReply st, RowsReadReply 0, CloseReply, RowsReadReply 0], s'))"
proof -
  let ?s = "new_data_source node :: 'a jdbc_data_source"
  let ?s' = "?s\<lparr>runtime_state := Some state, tuple_desc := Some td\<rparr>"
  have p: "desc_tbl state (tuple_id (provider ?s)) = Some td"
    using assms(1) by (simp add: new_data_source_def)
  have o: "open mgr scn state ?s = Inr (st, ?s')"
    by (rule open_driver_failed [where mgr = mgr, OF p assms(2-4)])
  have n: "scanner ?s' = None" by (simp add: new_data_source_def)
  have c: "close scn ?s' = ?s'" by (rule close_no_scanner [OF n])
  have r: "raw_rows_read ?s' = 0" by (simp add: new_data_source_def raw_rows_read_def)
  from o n c r show ?thesis
    by (simp add: Let_def perform_def)
qed

theorem open_driver_resolution_fails_witness:
  "let s' = (new_data_source demo_node)
              \<lparr>runtime_state := Some demo_state,
               tuple_desc := Some \<lparr>table_desc = Some demo_table\<rparr>\<rparr>
   in open driver_missing (scripted \<lparr>script = [] :: (status \<times> nat list \<times> bool) list, closes = 0\<rparr>)
        demo_state (new_data_source demo_node) = Inr (Error ''no driver'', s')
    \<and> scanner s' = None
    \<and> close (scripted \<lparr>script = [] :: (status \<times> nat list \<times> bool) list, closes = 0\<rparr>) s' = s'
    \<and> raw_rows_read s' = 0
    \<and> raw_rows_read (close (scripted \<lparr>script = [] :: (status \<times> nat list \<times> bool) list, closes = 0\<rparr>) s') = 0
    \<and> session driver_missing (scripted \<lparr>script = [] :: (status \<times> nat list \<times> bool) list, closes = 0\<rparr>)
         demo_state [Open, RawRowsRead, Close, RawRowsRead] (new_data_source demo_node)
        = Some (Inr ([OpenReply (Error ''no driver''), RowsReadReply 0, CloseReply, RowsReadReply 0], s'))"
proof -
  have 1: "desc_tbl demo_state (tuple_id demo_node) = Some \<lparr>table_desc = Some demo_table\<rparr>"
    by (simp add: demo_state_def demo_node_def)
  have 2: "table_desc \<lparr>table_desc = Some demo_table\<rparr> = Some demo_table"
    by simp
  have 3: "driver_missing (jdbc_driver_name demo_table) (jdbc_driver_url demo_table)
             (jdbc_driver_checksum demo_table) = (Error ''no driver'', '''')"
    by (simp add: driver_missing_def)
  have 4: "Error ''no driver'' \<noteq> OK"
    by simp
  show ?thesis
    by (rule open_driver_resolution_fails [where mgr = driver_missing, OF 1 2 3 4])
qed

text \<open>
  C6, as the code has it. \<^verbatim>\<open>close\<close> returns no status and cannot fail, also when it is
  called twice or after an \<^verbatim>\<open>open\<close> that failed. Without a scanner it changes nothing.
  With a scanner, every call of \<^verbatim>\<open>close\<close> calls the scanner's \<^verbatim>\<open>reset_jni_env\<close> and
  \<^verbatim>\<open>close\<close>: the pointer is kept, so a second \<^verbatim>\<open>close\<close> reaches the scanner again.
\<close>

theorem close_effect:
  "(scanner s = None \<longrightarrow> close scn s = s \<and> close scn (close scn s) = s)
   \<and> (scanner s = Some sc \<longrightarrow>
        close scn s
          = s\<lparr>scanner := Some (snd (scanner_close scn (snd (scanner_reset_jni_env scn sc))))\<rparr>)
   \<and> raw_rows_read (close scn s) = raw_rows_read s
   \<and> session mgr scn state [Close, Close] s
       = Some (Inr ([CloseReply, CloseReply], close scn (close scn s)))"
  by (simp add: close_no_scanner close_scanner close_rows_read raw_rows_read_def perform_def)

theorem close_effect_witness:
  "close (scripted \<lparr>script = [] :: (status \<times> nat list \<times> bool) list, closes = 0\<rparr>)
     (new_data_source demo_node) = new_data_source demo_node
   \<and> close (scripted \<lparr>script = [] :: (status \<times> nat list \<times> bool) list, closes = 0\<rparr>)
       (close (scripted \<lparr>script = [], closes = 0\<rparr>) (new_data_source demo_node))
     = new_data_source demo_node
   \<and> close (scripted \<lparr>script = [] :: (status \<times> nat list \<times> bool) list, closes = 0\<rparr>)
       ((new_data_source demo_node)\<lparr>scanner := Some \<lparr>script = [], closes = 0\<rparr>\<rparr>)
     = (new_data_source demo_node)\<lparr>scanner := Some \<lparr>script = [], closes = 1\<rparr>\<rparr>"
proof -
  let ?e = "\<lparr>script = [] :: (status \<times> nat list \<times> bool) list, closes = 0\<rparr>"
  let ?n = "new_data_source demo_node :: nat scripted_scanner jdbc_data_source"
  let ?s = "?n\<lparr>scanner := Some ?e\<rparr>"
  have h1: "scanner ?n = None" by (simp add: new_data_source_def)
  have h2: "scanner ?s = Some ?e" by simp
  have a: "close (scripted ?e) ?n = ?n \<and> close (scripted ?e) (close (scripted ?e) ?n) = ?n"
    using close_effect [where s = ?n and scn = "scripted ?e", THEN conjunct1] h1 by (rule mp)
  have b: "close (scripted ?e) ?s
      = ?s\<lparr>scanner := Some (snd (scanner_close (scripted ?e)
                (snd (scanner_reset_jni_env (scripted ?e) ?e))))\<rparr>"
    using close_effect [where s = ?s and scn = "scripted ?e" and sc = ?e,
        THEN conjunct2, THEN conjunct1] h2 by (rule mp)
  from a b show ?thesis by (simp add: scripted_sel)
qed

text \<open>
  C6 as stated fails: after a successful \<^verbatim>\<open>open\<close>, two calls of \<^verbatim>\<open>close\<close> call the
  scanner's \<^verbatim>\<open>close\<close> twice.
\<close>

theorem close_twice_closes_scanner_twice:
  "transcript (session driver_found
       (scripted \<lparr>script = [] :: (status \<times> nat list \<times> bool) list, closes = 0\<rparr>)
       demo_state [Open, Close, Close] (new_data_source demo_node))
     = Some [OpenReply OK, CloseReply, CloseReply]
   \<and> closes_after (session driver_found
          (scripted \<lparr>script = [] :: (status \<times> nat list \<times> bool) list, closes = 0\<rparr>)
          demo_state [Open, Close, Close] (new_data_source demo_node))
     = Some 2"
  by (simp add: run_simps closes_after_def closes_seen_def)

text \<open>
  C5 as stated fails: the data source keeps no mark of the end. After a call that
  returned \<^verbatim>\<open>EndOfFile\<close>, the next call fetches again, and when the scanner then yields
  rows they are delivered and counted.
\<close>

theorem end_is_not_remembered:
  "transcript (session driver_found
       (scripted \<lparr>script = [(OK, [], True), (OK, [1 :: nat, 2], False)], closes = 0\<rparr>)
       demo_state [Open, GetNext, RawRowsRead, GetNext, RawRowsRead] (new_data_source demo_node))
     = Some [OpenReply OK, NextReply (EndOfFile '''') [], RowsReadReply 0,
             NextReply OK [1, 2], RowsReadReply 2]"
  by (simp add: run_simps)

subsection \<open>A scanner that stays at the end\<close>

lemma get_next_at_end:
  assumes inv: "\<forall>sc. E sc \<longrightarrow>
            (\<exists>sc'. scanner_reset_jni_env scn sc = (OK, sc') \<and> E sc')
          \<and> (\<forall>c. \<exists>c' sc'. scanner_get_next scn sc c False = (OK, c', True, sc') \<and> E sc')"
    and s: "scanner s = Some sc" and e: "E sc"
  shows "\<exists>c' sc'. get_next scn s chunk = Some (Inr (EndOfFile '''', c', s\<lparr>scanner := Some sc'\<rparr>))
           \<and> E sc'"
proof -
  from inv e obtain sc1 where r: "scanner_reset_jni_env scn sc = (OK, sc1)" and e1: "E sc1"
    by blast
  from inv e1 obtain c' sc' where
    g: "scanner_get_next scn sc1 (init_chunk 0) False = (OK, c', True, sc')" and e': "E sc'"
    by blast
  from g have "fetch_loop scn sc1 (init_chunk 0) False = Some (OK, c', True, sc')"
    by (simp add: fetch_loop_stop)
  with s r have "get_next scn s chunk = Some (Inr (EndOfFile '''', c', s\<lparr>scanner := Some sc'\<rparr>))"
    by (simp add: get_next_fetched [where sc = sc and ?sc1.0 = sc1])
  with e' show ?thesis by blast
qed

text \<open>
  C5, as the code has it. Let the scanner stay at the end: from the state it is in, and
  from every state it moves to, \<^verbatim>\<open>reset_jni_env\<close> succeeds and a fetch raises the end
  flag. Then any number of further calls of \<^verbatim>\<open>get_next\<close> all return \<^verbatim>\<open>EndOfFile\<close> with
  the empty message, and the counter stays as it was.
\<close>

theorem end_repeats_while_scanner_stays_at_end:
  assumes "\<forall>sc. E sc \<longrightarrow>
            (\<exists>sc'. scanner_reset_jni_env scn sc = (OK, sc') \<and> E sc')
          \<and> (\<forall>c. \<exists>c' sc'. scanner_get_next scn sc c False = (OK, c', True, sc') \<and> E sc')"
    and "scanner s = Some sc" and "E sc"
  shows "\<exists>rs s'. session mgr scn state (replicate n GetNext) s = Some (Inr (rs, s'))
           \<and> length rs = n \<and> (\<forall>r \<in> set rs. \<exists>c. r = NextReply (EndOfFile '''') c)
           \<and> raw_rows_read s' = raw_rows_read s"
  using assms(2,3)
proof (induction n arbitrary: s sc)
  case 0
  then show ?case by simp
next
  case (Suc n)
  from get_next_at_end [OF assms(1) Suc.prems, of "[]"] obtain c' sc' where
    g: "get_next scn s [] = Some (Inr (EndOfFile '''', c', s\<lparr>scanner := Some sc'\<rparr>))"
    and e': "E sc'"
    by blast
  have "scanner (s\<lparr>scanner := Some sc'\<rparr>) = Some sc'" by simp
  from Suc.IH [OF this e'] obtain rs s' where
    r: "session mgr scn state (replicate n GetNext) (s\<lparr>scanner := Some sc'\<rparr>) = Some (Inr (rs, s'))"
      "length rs = n" "\<forall>r \<in> set rs. \<exists>c. r = NextReply (EndOfFile '''') c"
      "raw_rows_read s' = raw_rows_read (s\<lparr>scanner := Some sc'\<rparr>)"
    by blast
  from g r(1) have
    "session mgr scn state (replicate (Suc n) GetNext) s
      = Some (Inr (NextReply (EndOfFile '''') c' # rs, s'))"
    by (simp add: perform_def)
  moreover from r(2) have "length (NextReply (EndOfFile '''') c' # rs) = Suc n" by simp
  moreover from r(3) have
    "\<forall>r \<in> set (NextReply (EndOfFile '''') c' # rs). \<exists>c. r = NextReply (EndOfFile '''') c"
    by simp
  moreover from r(4) have "raw_rows_read s' = raw_rows_read s"
    by (simp add: raw_rows_read_def)
  ultimately show ?case by blast
qed

theorem end_repeats_while_scanner_stays_at_end_witness:
  "\<exists>rs s'. session driver_found
              (scripted \<lparr>script = [] :: (status \<times> nat list \<times> bool) list, closes = 0\<rparr>)
              demo_state (replicate 3 GetNext)
              ((new_data_source demo_node)\<lparr>scanner := Some \<lparr>script = [], closes = 0\<rparr>, rows_read := 8\<rparr>)
            = Some (Inr (rs, s'))
         \<and> length rs = 3 \<and> set rs \<subseteq> {NextReply (EndOfFile '''') c | c. True}
         \<and> raw_rows_read s' = 8"
proof -
  let ?e = "\<lparr>script = [] :: (status \<times> nat list \<times> bool) list, closes = 0\<rparr>"
  let ?s = "(new_data_source demo_node)\<lparr>scanner := Some ?e, rows_read := 8\<rparr>"
  have inv: "\<forall>sc. script sc = [] \<longrightarrow>
            (\<exists>sc'. scanner_reset_jni_env (scripted ?e) sc = (OK, sc') \<and> script sc' = [])
          \<and> (\<forall>c. \<exists>c' sc'. scanner_get_next (scripted ?e) sc c False = (OK, c', True, sc')
                  \<and> script sc' = [])"
    by (simp add: scripted_sel scripted_get_next_def)
  have s: "scanner ?s = Some ?e" by simp
  have e: "script ?e = []" by simp
  from end_repeats_while_scanner_stays_at_end
         [where E = "\<lambda>sc. script sc = []" and scn = "scripted ?e" and mgr = driver_found
            and state = demo_state and n = 3, OF inv s e]
  show ?thesis by (auto simp: raw_rows_read_def)
qed

subsection \<open>The counter over a whole run\<close>

lemma perform_rows_read:
  assumes "perform mgr scn state c s = Some (Inr (r, s'))"
  shows "rows_read s' = rows_read s + word_of_nat (rows_delivered [r])"
proof (cases c)
  case Open
  with assms show ?thesis
    by (auto simp: perform_def rows_delivered_def split: sum.splits prod.splits
        dest: open_rows_read)
next
  case GetNext
  with assms obtain st chunk where
    g: "get_next scn s [] = Some (Inr (st, chunk, s'))" and r: "r = NextReply st chunk"
    by (auto simp: perform_def split: option.splits sum.splits prod.splits)
  from get_next_rows_read [OF g] r show ?thesis
    by (simp add: rows_delivered_def)
next
  case Close
  with assms show ?thesis
    by (auto simp: perform_def rows_delivered_def close_rows_read)
next
  case RawRowsRead
  with assms show ?thesis
    by (auto simp: perform_def rows_delivered_def)
qed

lemma perform_delivered_nonempty:
  assumes "perform mgr scn state c s = Some (Inr (r, s'))"
  shows "\<forall>b \<in> set (delivered [r]). num_rows b \<noteq> 0"
proof (cases c)
  case GetNext
  with assms obtain st chunk where
    g: "get_next scn s [] = Some (Inr (st, chunk, s'))" and r: "r = NextReply st chunk"
    by (auto simp: perform_def split: option.splits sum.splits prod.splits)
  show ?thesis
  proof (cases "st = OK")
    case True
    with g get_next_OK_D [of scn s "[]" chunk s'] have "num_rows chunk \<noteq> 0" by blast
    with r show ?thesis by simp
  next
    case False
    with r show ?thesis by simp
  qed
qed (use assms in \<open>auto simp: perform_def split: sum.splits prod.splits\<close>)

lemma delivered_Cons: "delivered (r # rs) = delivered [r] @ delivered rs"
  by (cases r) simp_all

lemma rows_delivered_Cons: "rows_delivered (r # rs) = rows_delivered [r] + rows_delivered rs"
  by (simp add: rows_delivered_def delivered_Cons [of r rs])

lemma session_ConsD:
  assumes "session mgr scn state (c # cs) s = Some (Inr (rs, s'))"
  obtains r s1 rs' where "perform mgr scn state c s = Some (Inr (r, s1))"
    and "session mgr scn state cs s1 = Some (Inr (rs', s'))" and "rs = r # rs'"
  using assms by (auto split: option.splits sum.splits prod.splits)

lemma session_rows_read:
  "session mgr scn state calls s = Some (Inr (rs, s'))
   \<Longrightarrow> rows_read s' = rows_read s + word_of_nat (rows_delivered rs)"
proof (induction calls arbitrary: s rs)
  case Nil
  then show ?case by (simp add: rows_delivered_def)
next
  case (Cons c cs)
  from Cons.prems obtain r s1 rs' where
    p: "perform mgr scn state c s = Some (Inr (r, s1))"
    and q: "session mgr scn state cs s1 = Some (Inr (rs', s'))" and rs: "rs = r # rs'"
    by (rule session_ConsD)
  from perform_rows_read [OF p] Cons.IH [OF q] rs show ?case
    by (simp add: rows_delivered_Cons [of r rs'])
qed

lemma session_delivered_nonempty:
  "session mgr scn state calls s = Some (Inr (rs, s'))
   \<Longrightarrow> \<forall>b \<in> set (delivered rs). num_rows b \<noteq> 0"
proof (induction calls arbitrary: s rs)
  case Nil
  then show ?case by simp
next
  case (Cons c cs)
  from Cons.prems obtain r s1 rs' where
    p: "perform mgr scn state c s = Some (Inr (r, s1))"
    and q: "session mgr scn state cs s1 = Some (Inr (rs', s'))" and rs: "rs = r # rs'"
    by (rule session_ConsD)
  from perform_delivered_nonempty [OF p] Cons.IH [OF q] rs show ?case
    by (auto simp: delivered_Cons [of r rs'])
qed

lemma sint_add_rows:
  fixes w :: "64 word"
  assumes "0 \<le> sint w" and "sint w + int n < 2 ^ 63"
  shows "sint (w + word_of_nat n) = sint w + int n"
proof -
  have n: "int n < 2 ^ 63" using assms by linarith
  have "sint (word_of_nat n :: 64 word) = signed_take_bit 63 (int n)"
    by (simp add: signed_of_nat)
  also have "\<dots> = int n"
    using n by (intro signed_take_bit_int_eq_self) simp_all
  finally have 1: "sint (word_of_nat n :: 64 word) = int n" .
  have "sint (w + word_of_nat n) = signed_take_bit 63 (sint w + sint (word_of_nat n :: 64 word))"
    by (simp add: sint_word_ariths)
  also have "\<dots> = signed_take_bit 63 (sint w + int n)"
    by (simp only: 1)
  also have "\<dots> = sint w + int n"
    using assms by (intro signed_take_bit_int_eq_self) simp_all
  finally show ?thesis .
qed

text \<open>
  C8, as the code has it. Over any run of calls that returns, the counter has grown by
  the rows of the batches delivered in that run, in 64-bit arithmetic, and every delivered
  batch has rows: \<^verbatim>\<open>open\<close>, \<^verbatim>\<open>close\<close> and a \<^verbatim>\<open>get_next\<close> that does not return \<^verbatim>\<open>OK\<close> leave
  it alone. As long as the total stays below \<open>2 ^ 63\<close> the signed value that the caller
  reads is exactly the old value plus the rows delivered, so it never goes down.
\<close>

theorem rows_read_counts_delivered:
  assumes "session mgr scn state calls s = Some (Inr (rs, s'))"
  shows "raw_rows_read s' = raw_rows_read s + word_of_nat (rows_delivered rs)
       \<and> (\<forall>b \<in> set (delivered rs). num_rows b \<noteq> 0)
       \<and> (0 \<le> sint (raw_rows_read s)
            \<and> sint (raw_rows_read s) + int (rows_delivered rs) < 2 ^ 63
          \<longrightarrow> sint (raw_rows_read s') = sint (raw_rows_read s) + int (rows_delivered rs)
              \<and> sint (raw_rows_read s) \<le> sint (raw_rows_read s'))"
proof (intro conjI impI)
  show eq: "raw_rows_read s' = raw_rows_read s + word_of_nat (rows_delivered rs)"
    using session_rows_read [OF assms] by (simp add: raw_rows_read_def)
  show "\<forall>b \<in> set (delivered rs). num_rows b \<noteq> 0"
    by (rule session_delivered_nonempty [OF assms])
  assume b: "0 \<le> sint (raw_rows_read s)
            \<and> sint (raw_rows_read s) + int (rows_delivered rs) < 2 ^ 63"
  then show v: "sint (raw_rows_read s') = sint (raw_rows_read s) + int (rows_delivered rs)"
    unfolding eq by (intro sint_add_rows) simp_all
  then show "sint (raw_rows_read s) \<le> sint (raw_rows_read s')"
    by simp
qed

theorem rows_read_counts_delivered_witness:
  "rows_delivered [NextReply OK [1 :: nat, 2], RowsReadReply 2, NextReply OK [3], CloseReply,
       NextReply (EndOfFile '''') []] = 3
   \<and> sint (raw_rows_read ((new_data_source demo_node)
         \<lparr>scanner := Some \<lparr>script = [] :: (status \<times> nat list \<times> bool) list, closes = 1\<rparr>,
          rows_read := 3\<rparr>)) = 3"
proof -
  let ?i = "\<lparr>script = batches [[], [1 :: nat, 2], [], [3]], closes = 0\<rparr>"
  let ?s = "(new_data_source demo_node)\<lparr>scanner := Some ?i\<rparr>"
  let ?rs = "[NextReply OK [1 :: nat, 2], RowsReadReply 2, NextReply OK [3], CloseReply,
       NextReply (EndOfFile '''') []]"
  let ?s' = "(new_data_source demo_node)
         \<lparr>scanner := Some \<lparr>script = [] :: (status \<times> nat list \<times> bool) list, closes = 1\<rparr>,
          rows_read := 3\<rparr>"
  have run: "session driver_found (scripted ?i) demo_state
               [GetNext, RawRowsRead, GetNext, Close, GetNext] ?s = Some (Inr (?rs, ?s'))"
    by (simp add: run_simps)
  have d: "rows_delivered ?rs = 3"
    by (simp add: rows_delivered_def num_rows_def)
  have b: "0 \<le> sint (raw_rows_read ?s)
            \<and> sint (raw_rows_read ?s) + int (rows_delivered ?rs) < 2 ^ 63"
    unfolding d by (simp add: raw_rows_read_def new_data_source_def)
  have "sint (raw_rows_read ?s') = sint (raw_rows_read ?s) + int (rows_delivered ?rs)
              \<and> sint (raw_rows_read ?s) \<le> sint (raw_rows_read ?s')"
    using rows_read_counts_delivered [OF run, THEN conjunct2, THEN conjunct2] b by (rule mp)
  then have "sint (raw_rows_read ?s') = 3"
    unfolding d by (simp add: raw_rows_read_def new_data_source_def)
  with d show ?thesis by simp
qed

text \<open>
  C8 as stated fails at the end of the counter's range: with \<open>2 ^ 63 - 1\<close> rows read, the
  next batch that is delivered makes the value the caller reads negative.
\<close>

theorem rows_read_wraps_at_int64_max:
  "transcript (session driver_found
       (scripted \<lparr>script = batches [[7 :: nat]], closes = 0\<rparr>) demo_state
       [RawRowsRead, GetNext, RawRowsRead]
       ((new_data_source demo_node)
          \<lparr>scanner := Some \<lparr>script = batches [[7]], closes = 0\<rparr>,
           rows_read := 9223372036854775807\<rparr>))
     = Some [RowsReadReply 9223372036854775807, NextReply OK [7],
             RowsReadReply (- 9223372036854775808)]
   \<and> sint (9223372036854775807 :: 64 word) = 9223372036854775807
   \<and> sint (- 9223372036854775808 :: 64 word) = - 9223372036854775808"
  by (simp add: run_simps)

end
